theory Spec2Isabelle
  imports Main
begin

section \<open>The notebook page-turn controller\<close>

text \<open>
  A shallow embedding of \<^verbatim>\<open>NotebookController\<close> and of the touch adapter.
  \<^verbatim>\<open>src/script.js\<close> is the click/keyboard variant; \<^verbatim>\<open>src/unnamed/part_000\<close>
  is the variant with open/previous/next buttons, whose definitions carry the suffix
  \<open>_B\<close>. The HTML document is not among the sources, so the page stack is a parameter
  of the constructor.
\<close>

subsection \<open>Data model\<close>

text \<open>
  An element below \<^verbatim>\<open>#pageStack\<close>: its \<^verbatim>\<open>data-page\<close> attribute (if any), whether it
  carries the class \<^verbatim>\<open>page-right\<close> (membership in \<^verbatim>\<open>this.pages\<close>), the three
  presentation classes the controller toggles, and \<^verbatim>\<open>style.transform\<close>.
\<close>

record page_elem =
  data_page :: "string option"
  page_right :: bool
  turning :: bool
  turned :: bool
  hidden :: bool
  transform :: string

text \<open>
  The closures handed to \<^verbatim>\<open>setTimeout\<close>. A closure that captured a page element
  holds the element's position in the page stack.
\<close>

datatype callback =
    OpenDone
  | NextDone nat
  | PrevStart nat
  | PrevDone nat

text \<open>
  The controller's fields together with the parts of the document it writes and the
  pending timers, each with the delay it was scheduled with. The two button fields
  exist in the button variant only; the click/keyboard variant never touches them.
\<close>

record controller =
  currentPage :: int
  totalPages :: int
  isOpened :: bool
  isAnimating :: bool
  notebook_opened :: bool
  elems :: "page_elem list"
  currentPageSpan :: string
  totalPagesSpan :: string
  prevBtn_disabled :: bool
  nextBtn_disabled :: bool
  timers :: "(nat \<times> callback) list"

subsection \<open>Number to string, selectors, timers\<close>

definition digit_char :: "nat \<Rightarrow> char" where
  "digit_char d = ''0123456789'' ! d"

fun digits10 :: "nat \<Rightarrow> string" where
  "digits10 n = (if n < 10 then [digit_char n]
                 else digits10 (n div 10) @ [digit_char (n mod 10)])"

declare digits10.simps [simp del]

text \<open>The string a template literal gives for an integer-valued number.\<close>

definition show_int :: "int \<Rightarrow> string" where
  "show_int i = (if i < 0 then ''-'' @ digits10 (nat (- i)) else digits10 (nat i))"

text \<open>
  \<^verbatim>\<open>pageStack.querySelector('[data-page="v"]')\<close>: the first element in document
  order whose attribute is \<open>v\<close>, or \<^verbatim>\<open>null\<close>.
\<close>

fun querySelector :: "page_elem list \<Rightarrow> string \<Rightarrow> nat option" where
  "querySelector [] v = None"
| "querySelector (e # es) v =
     (if data_page e = Some v then Some 0 else map_option Suc (querySelector es v))"

definition upd_elem :: "nat \<Rightarrow> (page_elem \<Rightarrow> page_elem) \<Rightarrow> controller \<Rightarrow> controller" where
  "upd_elem i f s = s\<lparr>elems := (elems s)[i := f (elems s ! i)]\<rparr>"

definition setTimeout :: "callback \<Rightarrow> nat \<Rightarrow> controller \<Rightarrow> controller" where
  "setTimeout cb delay s = s\<lparr>timers := timers s @ [(delay, cb)]\<rparr>"

subsection \<open>The click/keyboard variant (src/script.js)\<close>

definition updateDisplay :: "controller \<Rightarrow> controller" where
  "updateDisplay s =
     (if currentPage s = 0 then s\<lparr>currentPageSpan := ''Cover''\<rparr>
      else if currentPage s > totalPages s then s\<lparr>currentPageSpan := ''End''\<rparr>
      else s\<lparr>currentPageSpan := ''Page '' @ show_int (currentPage s)\<rparr>)"

definition initializePageStates :: "controller \<Rightarrow> controller" where
  "initializePageStates s =
     s\<lparr>elems := map (\<lambda>e. if page_right e
                            then e\<lparr>transform := [], turned := False, hidden := False\<rparr>
                            else e) (elems s)\<rparr>"

definition openNotebook :: "controller \<Rightarrow> controller" where
  "openNotebook s =
     (if isAnimating s \<or> isOpened s then s
      else setTimeout OpenDone 500
             (initializePageStates
                (s\<lparr>isAnimating := True, isOpened := True, currentPage := 1,
                   notebook_opened := True\<rparr>)))"

definition nextPage :: "controller \<Rightarrow> controller" where
  "nextPage s =
     (if isAnimating s \<or> currentPage s \<ge> totalPages s then s
      else let s1 = s\<lparr>isAnimating := True\<rparr> in
        case querySelector (elems s1) (show_int (currentPage s1)) of
          None \<Rightarrow> s1
        | Some i \<Rightarrow> setTimeout (NextDone i) 600 (upd_elem i (\<lambda>e. e\<lparr>turning := True\<rparr>) s1))"

definition previousPage :: "controller \<Rightarrow> controller" where
  "previousPage s =
     (if isAnimating s \<or> currentPage s \<le> 1 then s
      else let s1 = s\<lparr>isAnimating := True\<rparr>;
               s2 = s1\<lparr>currentPage := currentPage s1 - 1\<rparr> in
        case querySelector (elems s2) (show_int (currentPage s2)) of
          None \<Rightarrow> s2
        | Some i \<Rightarrow>
            let s3 = upd_elem i (\<lambda>e. e\<lparr>hidden := False\<rparr>) s2 in
            if turned (elems s3 ! i)
            then setTimeout (PrevStart i) 50
                   (upd_elem i (\<lambda>e. e\<lparr>transform := ''rotateY(-180deg)''\<rparr>) s3)
            else updateDisplay (s3\<lparr>isAnimating := False\<rparr>))"

text \<open>The body of each scheduled closure.\<close>

fun run_callback :: "callback \<Rightarrow> controller \<Rightarrow> controller" where
  "run_callback OpenDone s = updateDisplay (s\<lparr>isAnimating := False\<rparr>)"
| "run_callback (NextDone i) s =
     (let s1 = upd_elem i (\<lambda>e. e\<lparr>turning := False, turned := True\<rparr>) s;
          s2 = s1\<lparr>currentPage := currentPage s1 + 1\<rparr>;
          s3 = (if currentPage s2 > totalPages s2
                then (upd_elem i (\<lambda>e. e\<lparr>hidden := True\<rparr>) s2)
                       \<lparr>currentPage := totalPages s2 + 1\<rparr>
                else s2)
      in updateDisplay (s3\<lparr>isAnimating := False\<rparr>))"
| "run_callback (PrevStart i) s =
     setTimeout (PrevDone i) 600
       (upd_elem i (\<lambda>e. e\<lparr>turning := True, transform := []\<rparr>) s)"
| "run_callback (PrevDone i) s =
     updateDisplay
       ((upd_elem i (\<lambda>e. e\<lparr>turning := False, turned := False\<rparr>) s)\<lparr>isAnimating := False\<rparr>)"

definition handleResize :: "controller \<Rightarrow> controller" where
  "handleResize s =
     (if isAnimating s
      then updateDisplay
             (s\<lparr>elems := map (\<lambda>e. if page_right e
                                    then e\<lparr>turning := False, transform := []\<rparr>
                                    else e) (elems s),
                isAnimating := False\<rparr>)
      else s)"

text \<open>
  The field initialisers and the constructor, on the page stack of the document.
\<close>

definition init :: "page_elem list \<Rightarrow> controller" where
  "init stack =
     updateDisplay
       \<lparr>currentPage = 0, totalPages = 4, isOpened = False, isAnimating = False,
        notebook_opened = False, elems = stack, currentPageSpan = [],
        totalPagesSpan = show_int 4, prevBtn_disabled = False, nextBtn_disabled = False,
        timers = []\<rparr>"

text \<open>
  The host runs a pending timer: the closure at position \<open>k\<close> of the pending list is
  removed and executed. Nothing happens when there is no such timer.
\<close>

definition fire :: "nat \<Rightarrow> controller \<Rightarrow> controller" where
  "fire k s =
     (if k < length (timers s)
      then run_callback (snd (timers s ! k))
             (s\<lparr>timers := take k (timers s) @ drop (Suc k) (timers s)\<rparr>)
      else s)"

text \<open>The three transition operations, by name.\<close>

datatype op = Open | Advance | Retreat

fun call :: "op \<Rightarrow> controller \<Rightarrow> controller" where
  "call Open s = openNotebook s"
| "call Advance s = nextPage s"
| "call Retreat s = previousPage s"

subsection \<open>The touch adapter\<close>

text \<open>
  The \<^verbatim>\<open>touchstart\<close> and \<^verbatim>\<open>touchend\<close> listeners. \<open>startX\<close> and \<open>startY\<close> are
  the closure variables (\<^verbatim>\<open>null\<close> is \<open>None\<close>); coordinates are whole pixels. A
  listener returns the controller together with the new values of both variables.
\<close>

definition touchstart :: "int \<Rightarrow> int \<Rightarrow> int option \<times> int option" where
  "touchstart x y = (Some x, Some y)"

text \<open>\<^verbatim>\<open>!v\<close> for a variable that holds \<^verbatim>\<open>null\<close> or a number.\<close>

definition falsy :: "int option \<Rightarrow> bool" where
  "falsy v = (case v of None \<Rightarrow> True | Some n \<Rightarrow> n = 0)"

datatype swipe = NoCall | CallNext | CallPrevious

text \<open>Which controller method, if any, the listener calls.\<close>

definition touchend_decision ::
  "int option \<Rightarrow> int option \<Rightarrow> int \<Rightarrow> int \<Rightarrow> controller \<Rightarrow> swipe" where
  "touchend_decision startX startY endX endY s =
     (if falsy startX \<or> falsy startY then NoCall
      else let diffX = the startX - endX; diffY = the startY - endY in
        if \<bar>diffX\<bar> > \<bar>diffY\<bar> \<and> \<bar>diffX\<bar> > 50
        then (if isOpened s \<and> \<not> isAnimating s
              then (if diffX > 0 then CallNext else CallPrevious)
              else NoCall)
        else NoCall)"

definition touchend ::
  "int option \<Rightarrow> int option \<Rightarrow> int \<Rightarrow> int \<Rightarrow> controller
     \<Rightarrow> controller \<times> int option \<times> int option" where
  "touchend startX startY endX endY s =
     (if falsy startX \<or> falsy startY then (s, startX, startY)
      else (case touchend_decision startX startY endX endY s of
              NoCall \<Rightarrow> s
            | CallNext \<Rightarrow> nextPage s
            | CallPrevious \<Rightarrow> previousPage s,
            None, None))"

subsection \<open>The button variant (src/unnamed/part_000)\<close>

definition updateDisplay_B :: "controller \<Rightarrow> controller" where
  "updateDisplay_B s =
     (let s1 = (if currentPage s = 0 then s\<lparr>currentPageSpan := ''Cover''\<rparr>
                else if currentPage s > totalPages s then s\<lparr>currentPageSpan := ''End''\<rparr>
                else s\<lparr>currentPageSpan := ''Page '' @ show_int (currentPage s)\<rparr>)
      in s1\<lparr>prevBtn_disabled := (currentPage s1 \<le> 1),
             nextBtn_disabled := (currentPage s1 \<ge> totalPages s1)\<rparr>)"

definition openNotebook_B :: "controller \<Rightarrow> controller" where
  "openNotebook_B s =
     (if isAnimating s \<or> isOpened s then s
      else setTimeout OpenDone 1000
             (initializePageStates
                (s\<lparr>isAnimating := True, isOpened := True, currentPage := 1,
                   notebook_opened := True\<rparr>)))"

definition nextPage_B :: "controller \<Rightarrow> controller" where
  "nextPage_B s =
     (if isAnimating s \<or> currentPage s \<ge> totalPages s then s
      else let s1 = s\<lparr>isAnimating := True\<rparr> in
        case querySelector (elems s1) (show_int (currentPage s1)) of
          None \<Rightarrow> s1
        | Some i \<Rightarrow> setTimeout (NextDone i) 1000 (upd_elem i (\<lambda>e. e\<lparr>turning := True\<rparr>) s1))"

definition previousPage_B :: "controller \<Rightarrow> controller" where
  "previousPage_B s =
     (if isAnimating s \<or> currentPage s \<le> 1 then s
      else let s1 = s\<lparr>isAnimating := True\<rparr>;
               s2 = s1\<lparr>currentPage := currentPage s1 - 1\<rparr> in
        case querySelector (elems s2) (show_int (currentPage s2)) of
          None \<Rightarrow> s2
        | Some i \<Rightarrow>
            let s3 = upd_elem i (\<lambda>e. e\<lparr>hidden := False\<rparr>) s2 in
            if turned (elems s3 ! i)
            then setTimeout (PrevStart i) 50
                   (upd_elem i (\<lambda>e. e\<lparr>transform := ''rotateY(-180deg)''\<rparr>) s3)
            else updateDisplay_B (s3\<lparr>isAnimating := False\<rparr>))"

fun run_callback_B :: "callback \<Rightarrow> controller \<Rightarrow> controller" where
  "run_callback_B OpenDone s = updateDisplay_B (s\<lparr>isAnimating := False\<rparr>)"
| "run_callback_B (NextDone i) s =
     (let s1 = upd_elem i (\<lambda>e. e\<lparr>turning := False, turned := True\<rparr>) s;
          s2 = s1\<lparr>currentPage := currentPage s1 + 1\<rparr>;
          s3 = (if currentPage s2 > totalPages s2
                then (upd_elem i (\<lambda>e. e\<lparr>hidden := True\<rparr>) s2)
                       \<lparr>currentPage := totalPages s2 + 1\<rparr>
                else s2)
      in updateDisplay_B (s3\<lparr>isAnimating := False\<rparr>))"
| "run_callback_B (PrevStart i) s =
     setTimeout (PrevDone i) 1000
       (upd_elem i (\<lambda>e. e\<lparr>turning := True, transform := []\<rparr>) s)"
| "run_callback_B (PrevDone i) s =
     updateDisplay_B
       ((upd_elem i (\<lambda>e. e\<lparr>turning := False, turned := False\<rparr>) s)\<lparr>isAnimating := False\<rparr>)"

definition init_B :: "page_elem list \<Rightarrow> controller" where
  "init_B stack =
     updateDisplay_B
       \<lparr>currentPage = 0, totalPages = 4, isOpened = False, isAnimating = False,
        notebook_opened = False, elems = stack, currentPageSpan = [],
        totalPagesSpan = show_int 4, prevBtn_disabled = False, nextBtn_disabled = False,
        timers = []\<rparr>"

definition fire_B :: "nat \<Rightarrow> controller \<Rightarrow> controller" where
  "fire_B k s =
     (if k < length (timers s)
      then run_callback_B (snd (timers s ! k))
             (s\<lparr>timers := take k (timers s) @ drop (Suc k) (timers s)\<rparr>)
      else s)"

fun call_B :: "op \<Rightarrow> controller \<Rightarrow> controller" where
  "call_B Open s = openNotebook_B s"
| "call_B Advance s = nextPage_B s"
| "call_B Retreat s = previousPage_B s"

text \<open>The click listener of the next button: \<^verbatim>\<open>() => this.nextPage()\<close>.\<close>

definition nextBtn_click_B :: "controller \<Rightarrow> controller" where
  "nextBtn_click_B s = nextPage_B s"

subsection \<open>A document to run the controller on\<close>

text \<open>
  Modelled from the spec: the HTML document is not among the sources. The spec's data
  model has one page element per content page, tagged with its ordinal 1..N, each in
  its initial presentation state; with \<open>totalPages = 4\<close> that is the stack below.
\<close>

definition page :: "string \<Rightarrow> page_elem" where
  "page v = \<lparr>data_page = Some v, page_right = True, turning = False, turned = False,
              hidden = False, transform = []\<rparr>"

definition notebook_stack :: "page_elem list" where
  "notebook_stack = [page ''1'', page ''2'', page ''3'', page ''4'']"

text \<open>
  States of a run on that document: the notebook opened at page 1, and at pages 2, 3
  and 4 after one, two and three pages have been turned.
\<close>

definition page1_state :: controller where
  "page1_state = fire 0 (openNotebook (init notebook_stack))"

definition page2_state :: controller where
  "page2_state = fire 0 (nextPage page1_state)"



subsection \<open>Runs of the controller\<close>

text \<open>
  The states the controller can be in after any sequence of calls of the three
  transition operations, interleaved with the host running pending timers. Any pending
  timer may be the next one to run.
\<close>

inductive_set reach :: "page_elem list \<Rightarrow> controller set" for stack :: "page_elem list" where
  start: "init stack \<in> reach stack"
| input: "s \<in> reach stack \<Longrightarrow> call f s \<in> reach stack"
| timer: "s \<in> reach stack \<Longrightarrow> k < length (timers s) \<Longrightarrow> fire k s \<in> reach stack"

text \<open>
  Letting every pending timer run, oldest first, until none is left. A running closure
  schedules at most one further closure, and only the first stage of the reverse turn
  does, so the weight below decreases.
\<close>

fun cb_weight :: "callback \<Rightarrow> nat" where
  "cb_weight (PrevStart i) = 2"
| "cb_weight cb = 1"

definition pending_weight :: "controller \<Rightarrow> nat" where
  "pending_weight s = sum_list (map (\<lambda>t. cb_weight (snd t)) (timers s))"

function settle :: "controller \<Rightarrow> controller" where
  "settle s = (if timers s = [] then s else settle (fire 0 s))"
  by pat_completeness auto
termination
proof (relation "measure pending_weight")
  show "wf (measure pending_weight)" by simp
next
  fix s :: controller
  assume ne: "timers s \<noteq> []"
  have sched: "timers (run_callback cb u) =
      timers u @ (case cb of PrevStart i \<Rightarrow> [(600, PrevDone i)] | _ \<Rightarrow> [])" for cb u
    by (cases cb) (simp_all add: Let_def upd_elem_def setTimeout_def updateDisplay_def)
  from ne obtain d cb ts where "timers s = (d, cb) # ts"
    by (cases "timers s") auto
  then have "pending_weight (fire 0 s) < pending_weight s"
    by (cases cb) (simp_all add: fire_def pending_weight_def sched del: run_callback.simps)
  then show "(fire 0 s, s) \<in> measure pending_weight" by simp
qed

declare settle.simps [simp del]

text \<open>The change of \<open>currentPage\<close> a transition is meant to make.\<close>

fun delta :: "op \<Rightarrow> int" where
  "delta Open = 1"
| "delta Advance = 1"
| "delta Retreat = - 1"

subsection \<open>An invariant of all runs\<close>

text \<open>
  The \<^verbatim>\<open>data-page\<close> attributes are never written. A pending page-turn completion was
  scheduled below the last page. At most one timer is pending, and only while the lock
  is held. If no element is tagged \<^verbatim>\<open>0\<close>, the cover state is left through
  \<open>openNotebook\<close> only.
\<close>

definition timer_ok :: "controller \<Rightarrow> callback \<Rightarrow> bool" where
  "timer_ok s cb = (case cb of NextDone i \<Rightarrow> currentPage s < totalPages s | _ \<Rightarrow> True)"

definition tags :: "controller \<Rightarrow> string option list" where
  "tags s = map data_page (elems s)"

definition inv :: "page_elem list \<Rightarrow> controller \<Rightarrow> bool" where
  "inv stack s \<longleftrightarrow>
     totalPages s = 4 \<and> 0 \<le> currentPage s \<and> currentPage s \<le> 4 \<and>
     tags s = map data_page stack \<and>
     length (timers s) \<le> 1 \<and>
     (timers s \<noteq> [] \<longrightarrow> isAnimating s) \<and>
     (\<forall>t \<in> set (timers s). timer_ok s (snd t)) \<and>
     (querySelector stack ''0'' = None \<longrightarrow> \<not> isOpened s \<longrightarrow>
        currentPage s = 0 \<and> timers s = [])"

subsection \<open>Comparing the variants\<close>

text \<open>
  What the two variants are compared on: the controller's fields, the notebook's
  \<^verbatim>\<open>opened\<close> class, every page element, the indicator text and the pending closures
  in order, without their delays. The button flags are left out.
\<close>

definition core ::
  "controller \<Rightarrow> int \<times> int \<times> bool \<times> bool \<times> bool \<times> page_elem list \<times> string \<times> callback list" where
  "core s = (currentPage s, totalPages s, isOpened s, isAnimating s, notebook_opened s,
             elems s, currentPageSpan s, map snd (timers s))"

section \<open>Properties\<close>

subsection \<open>Auxiliary facts\<close>

lemma show_int_small: "show_int 0 = ''0''" "show_int 1 = ''1''" "show_int 2 = ''2''" "show_int 3 = ''3''" "show_int 4 = ''4''"
  by (simp_all add: show_int_def digits10.simps digit_char_def)

lemma updateDisplay_fields [simp]:
  "currentPage (updateDisplay s) = currentPage s"
  "totalPages (updateDisplay s) = totalPages s"
  "isOpened (updateDisplay s) = isOpened s"
  "isAnimating (updateDisplay s) = isAnimating s"
  "notebook_opened (updateDisplay s) = notebook_opened s"
  "elems (updateDisplay s) = elems s"
  "timers (updateDisplay s) = timers s"
  by (simp_all add: updateDisplay_def)

lemma settle_idle: "timers s = [] \<Longrightarrow> settle s = s"
  by (simp add: settle.simps)

lemma settle_step: "timers s \<noteq> [] \<Longrightarrow> settle s = settle (fire 0 s)"
  by (subst settle.simps) simp

lemma querySelector_tags:
  "map data_page xs = map data_page ys \<Longrightarrow> querySelector xs v = querySelector ys v"
proof (induction xs arbitrary: ys)
  case Nil
  then show ?case by simp
next
  case (Cons x xs)
  then obtain y ys' where ys: "ys = y # ys'" "data_page x = data_page y"
    "map data_page xs = map data_page ys'"
    by (cases ys) simp_all
  with Cons.IH [of ys'] show ?case by simp
qed

lemma querySelector_less: "querySelector xs v = Some i \<Longrightarrow> i < length xs"
  by (induction xs arbitrary: i) (auto split: if_splits)

lemma tags_update:
  "data_page y = data_page (xs ! i) \<Longrightarrow> map data_page (xs[i := y]) = map data_page xs"
  by (cases "i < length xs") (simp_all add: map_update list_update_same_conv list_update_beyond)


lemma tags_map:
  "(\<And>e. data_page (f e) = data_page e) \<Longrightarrow> map data_page (map f xs) = map data_page xs"
  by (induction xs) simp_all

lemma tags_comp:
  "(\<And>e. data_page (f e) = data_page e) \<Longrightarrow> map (data_page \<circ> f) xs = map data_page xs"
  by simp

lemma query_inv:
  "tags s = map data_page stack \<Longrightarrow> querySelector (elems s) v = querySelector stack v"
  by (rule querySelector_tags) (simp add: tags_def)

lemma openNotebook_busy: "isAnimating s \<or> isOpened s \<Longrightarrow> openNotebook s = s"
  by (simp add: openNotebook_def)

lemma openNotebook_start:
  "\<not> isAnimating s \<Longrightarrow> \<not> isOpened s \<Longrightarrow>
   openNotebook s =
     s\<lparr>isAnimating := True, isOpened := True, currentPage := 1, notebook_opened := True,
       elems := map (\<lambda>e. if page_right e
                            then e\<lparr>transform := [], turned := False, hidden := False\<rparr>
                            else e) (elems s),
       timers := timers s @ [(500, OpenDone)]\<rparr>"
  by (simp add: openNotebook_def initializePageStates_def setTimeout_def)

lemma nextPage_guard: "isAnimating s \<or> totalPages s \<le> currentPage s \<Longrightarrow> nextPage s = s"
  by (simp add: nextPage_def)

lemma nextPage_missing:
  "\<not> isAnimating s \<Longrightarrow> currentPage s < totalPages s \<Longrightarrow>
   querySelector (elems s) (show_int (currentPage s)) = None \<Longrightarrow>
   nextPage s = s\<lparr>isAnimating := True\<rparr>"
  by (simp add: nextPage_def)

lemma nextPage_start:
  "\<not> isAnimating s \<Longrightarrow> currentPage s < totalPages s \<Longrightarrow>
   querySelector (elems s) (show_int (currentPage s)) = Some i \<Longrightarrow>
   nextPage s =
     s\<lparr>isAnimating := True,
       elems := (elems s)[i := (elems s ! i)\<lparr>turning := True\<rparr>],
       timers := timers s @ [(600, NextDone i)]\<rparr>"
  by (simp add: nextPage_def setTimeout_def upd_elem_def)

lemma previousPage_guard: "isAnimating s \<or> currentPage s \<le> 1 \<Longrightarrow> previousPage s = s"
  by (simp add: previousPage_def)

lemma previousPage_missing:
  "\<not> isAnimating s \<Longrightarrow> 1 < currentPage s \<Longrightarrow>
   querySelector (elems s) (show_int (currentPage s - 1)) = None \<Longrightarrow>
   previousPage s = s\<lparr>isAnimating := True, currentPage := currentPage s - 1\<rparr>"
  by (simp add: previousPage_def)

lemma previousPage_start:
  "\<not> isAnimating s \<Longrightarrow> 1 < currentPage s \<Longrightarrow>
   querySelector (elems s) (show_int (currentPage s - 1)) = Some i \<Longrightarrow>
   turned (elems s ! i) \<Longrightarrow>
   previousPage s =
     s\<lparr>isAnimating := True, currentPage := currentPage s - 1,
       elems := (elems s)[i := (elems s ! i)\<lparr>hidden := False,
                                               transform := ''rotateY(-180deg)''\<rparr>],
       timers := timers s @ [(50, PrevStart i)]\<rparr>"
  using querySelector_less [of "elems s" "show_int (currentPage s - 1)" i]
  by (simp add: previousPage_def setTimeout_def upd_elem_def)

lemma previousPage_flat:
  "\<not> isAnimating s \<Longrightarrow> 1 < currentPage s \<Longrightarrow>
   querySelector (elems s) (show_int (currentPage s - 1)) = Some i \<Longrightarrow>
   \<not> turned (elems s ! i) \<Longrightarrow>
   previousPage s =
     updateDisplay
       (s\<lparr>currentPage := currentPage s - 1,
          elems := (elems s)[i := (elems s ! i)\<lparr>hidden := False\<rparr>],
          isAnimating := False\<rparr>)"
  using querySelector_less [of "elems s" "show_int (currentPage s - 1)" i]
  by (simp add: previousPage_def setTimeout_def upd_elem_def)

lemma inv_init: "inv stack (init stack)"
  by (simp add: inv_def init_def updateDisplay_def tags_def)

lemma inv_open: "inv stack s \<Longrightarrow> inv stack (openNotebook s)"
proof (cases "isAnimating s \<or> isOpened s")
  case True
  then show "inv stack s \<Longrightarrow> ?thesis" by (simp add: openNotebook_busy)
next
  case False
  then show "inv stack s \<Longrightarrow> ?thesis"
    by (simp add: openNotebook_start) (auto simp: inv_def tags_def tags_comp timer_ok_def)
qed

lemma inv_next: "inv stack s \<Longrightarrow> inv stack (nextPage s)"
proof -
  assume I: "inv stack s"
  show ?thesis
  proof (cases "isAnimating s \<or> totalPages s \<le> currentPage s")
    case True
    with I show ?thesis by (simp add: nextPage_guard)
  next
    case False
    then have G: "\<not> isAnimating s" "currentPage s < totalPages s" by auto
    show ?thesis
    proof (cases "querySelector (elems s) (show_int (currentPage s))")
      case None
      with I G show ?thesis by (simp add: nextPage_missing) (auto simp: inv_def tags_def)
    next
      case (Some i)
      from I have "querySelector (elems s) ''0'' = querySelector stack ''0''"
        by (simp add: inv_def query_inv)
      with I G Some show ?thesis
        by (simp add: nextPage_start)
           (auto simp: inv_def tags_def tags_update timer_ok_def show_int_small)
    qed
  qed
qed

lemma inv_prev: "inv stack s \<Longrightarrow> inv stack (previousPage s)"
proof -
  assume I: "inv stack s"
  show ?thesis
  proof (cases "isAnimating s \<or> currentPage s \<le> 1")
    case True
    with I show ?thesis by (simp add: previousPage_guard)
  next
    case False
    then have G: "\<not> isAnimating s" "1 < currentPage s" by auto
    show ?thesis
    proof (cases "querySelector (elems s) (show_int (currentPage s - 1))")
      case None
      with I G show ?thesis by (simp add: previousPage_missing) (auto simp: inv_def tags_def)
    next
      case (Some i)
      show ?thesis
      proof (cases "turned (elems s ! i)")
        case True
        with I G Some show ?thesis
          by (simp add: previousPage_start)
             (auto simp: inv_def tags_def tags_update timer_ok_def)
      next
        case False
        with I G Some show ?thesis
          by (simp add: previousPage_flat)
             (auto simp: inv_def tags_def tags_update timer_ok_def updateDisplay_def)
      qed
    qed
  qed
qed

lemma inv_fire: "inv stack s \<Longrightarrow> k < length (timers s) \<Longrightarrow> inv stack (fire k s)"
proof -
  assume I: "inv stack s" and K: "k < length (timers s)"
  then obtain d cb where T: "timers s = [(d, cb)]" and k0: "k = 0"
    by (cases "timers s") (auto simp: inv_def)
  from I T have A: "isAnimating s" "timer_ok s cb" by (auto simp: inv_def)
  from T k0 have F: "fire k s = run_callback cb (s\<lparr>timers := []\<rparr>)"
    by (simp add: fire_def)
  from I T A have O: "querySelector stack ''0'' = None \<longrightarrow> isOpened s"
    by (auto simp: inv_def)
  show ?thesis
  proof (cases cb)
    case OpenDone
    with I A F O show ?thesis
      by (auto simp: inv_def tags_def updateDisplay_def)
  next
    case (NextDone i)
    with I A F O show ?thesis
      by (auto simp: inv_def tags_def tags_update timer_ok_def updateDisplay_def upd_elem_def
          Let_def)
  next
    case (PrevStart i)
    with I A F O show ?thesis
      by (auto simp: inv_def tags_def tags_update timer_ok_def upd_elem_def setTimeout_def)
  next
    case (PrevDone i)
    with I A F O show ?thesis
      by (auto simp: inv_def tags_def tags_update timer_ok_def updateDisplay_def upd_elem_def)
  qed
qed

lemma reach_inv: "s \<in> reach stack \<Longrightarrow> inv stack s"
proof (induction rule: reach.induct)
  case start
  show ?case by (rule inv_init)
next
  case (input s f)
  then show ?case by (cases f) (simp_all add: inv_open inv_next inv_prev)
next
  case (timer s k)
  then show ?case by (simp add: inv_fire)
qed

lemma open_completes:
  "\<not> isAnimating s \<Longrightarrow> \<not> isOpened s \<Longrightarrow> timers s = [] \<Longrightarrow>
   currentPage (settle (openNotebook s)) = 1 \<and> \<not> isAnimating (settle (openNotebook s))"
  by (simp add: openNotebook_start settle_step settle_idle fire_def)

lemma next_completes:
  "\<not> isAnimating s \<Longrightarrow> currentPage s < totalPages s \<Longrightarrow> timers s = [] \<Longrightarrow>
   querySelector (elems s) (show_int (currentPage s)) = Some i \<Longrightarrow>
   currentPage (settle (nextPage s)) = currentPage s + 1 \<and>
   \<not> isAnimating (settle (nextPage s))"
  by (simp add: nextPage_start settle_step settle_idle fire_def upd_elem_def Let_def)

lemma prev_completes:
  "\<not> isAnimating s \<Longrightarrow> 1 < currentPage s \<Longrightarrow> timers s = [] \<Longrightarrow>
   querySelector (elems s) (show_int (currentPage s - 1)) = Some i \<Longrightarrow>
   currentPage (settle (previousPage s)) = currentPage s - 1 \<and>
   \<not> isAnimating (settle (previousPage s))"
  by (cases "turned (elems s ! i)")
     (simp_all add: previousPage_start previousPage_flat settle_step settle_idle fire_def
       upd_elem_def setTimeout_def)

lemma stuck_settle:
  "timers s = [] \<Longrightarrow> isAnimating (settle (s\<lparr>isAnimating := True\<rparr>))"
  "timers s = [] \<Longrightarrow> isAnimating (settle (s\<lparr>isAnimating := True, currentPage := c\<rparr>))"
  by (simp_all add: settle_idle)

lemma completed_changes_by_one:
  assumes I: "inv stack s" and Z: "querySelector stack ''0'' = None"
    and idle: "\<not> isAnimating s" and acc: "call f s \<noteq> s"
    and fin: "\<not> isAnimating (settle (call f s))"
  shows "currentPage (settle (call f s)) = currentPage s + delta f"
proof -
  from I idle have T: "timers s = []" by (auto simp: inv_def)
  show ?thesis
  proof (cases f)
    case Open
    with acc idle have "\<not> isOpened s" by (auto simp: openNotebook_busy)
    with I Z T idle Open show ?thesis
      using open_completes [of s] by (simp add: inv_def)
  next
    case Advance
    with acc idle have G: "currentPage s < totalPages s"
      using nextPage_guard [of s] by (cases "currentPage s < totalPages s") auto
    show ?thesis
    proof (cases "querySelector (elems s) (show_int (currentPage s))")
      case None
      with Advance idle G T fin show ?thesis
        by (simp add: nextPage_missing stuck_settle)
    next
      case (Some i)
      with Advance idle G T show ?thesis
        using next_completes [of s i] by simp
    qed
  next
    case Retreat
    with acc idle have G: "1 < currentPage s"
      using previousPage_guard [of s] by (cases "1 < currentPage s") auto
    show ?thesis
    proof (cases "querySelector (elems s) (show_int (currentPage s - 1))")
      case None
      with Retreat idle G T fin show ?thesis
        by (simp add: previousPage_missing stuck_settle)
    next
      case (Some i)
      with Retreat idle G T show ?thesis
        using prev_completes [of s i] by simp
    qed
  qed
qed

lemma page1_state_eq:
  "page1_state = \<lparr>currentPage = 1, totalPages = 4, isOpened = True, isAnimating = False,
        notebook_opened = True, elems = notebook_stack, currentPageSpan = ''Page 1'',
        totalPagesSpan = ''4'', prevBtn_disabled = False, nextBtn_disabled = False,
        timers = []\<rparr>"
  by (simp add: page1_state_def openNotebook_def init_def updateDisplay_def setTimeout_def
      initializePageStates_def fire_def notebook_stack_def page_def show_int_small)

lemma page2_state_eq:
  "page2_state = \<lparr>currentPage = 2, totalPages = 4, isOpened = True, isAnimating = False,
        notebook_opened = True,
        elems = [(page ''1'')\<lparr>turned := True\<rparr>, page ''2'', page ''3'', page ''4''],
        currentPageSpan = ''Page 2'',
        totalPagesSpan = ''4'', prevBtn_disabled = False, nextBtn_disabled = False,
        timers = []\<rparr>"
  unfolding page2_state_def page1_state_eq
  by (simp add: nextPage_def Let_def updateDisplay_def setTimeout_def
      fire_def notebook_stack_def page_def show_int_small upd_elem_def)


subsection \<open>Page bounds and unit steps\<close>

text \<open>
  Claim C1. In every state reached from the initial state by calls of \<open>openNotebook\<close>,
  \<open>nextPage\<close> and \<open>previousPage\<close> and by timers running, \<open>currentPage\<close> lies in
  \<open>[0, totalPages + 1]\<close>. Provided no element of the page stack is tagged \<^verbatim>\<open>0\<close>
  (the document has pages 1..N), a call accepted in an idle state whose timers then run
  to the release of the lock has changed \<open>currentPage\<close> by exactly one: plus one for
  open and advance, minus one for retreat.
\<close>

theorem currentPage_bounded_stepwise:
  "s \<in> reach stack \<Longrightarrow>
   0 \<le> currentPage s \<and> currentPage s \<le> totalPages s + 1 \<and>
   (querySelector stack ''0'' = None \<longrightarrow> \<not> isAnimating s \<longrightarrow> call f s \<noteq> s \<longrightarrow>
    \<not> isAnimating (settle (call f s)) \<longrightarrow>
      currentPage (settle (call f s)) = currentPage s + delta f)"
proof -
  assume "s \<in> reach stack"
  then have I: "inv stack s" by (rule reach_inv)
  then have "0 \<le> currentPage s \<and> currentPage s \<le> totalPages s + 1"
    by (simp add: inv_def)
  with completed_changes_by_one [OF I, of f] show ?thesis by blast
qed

theorem currentPage_bounded_stepwise_witness:
  "fire 0 (openNotebook (init notebook_stack)) \<in> reach notebook_stack \<and>
   querySelector notebook_stack ''0'' = None \<and>
   \<not> isAnimating (fire 0 (openNotebook (init notebook_stack))) \<and>
   call Advance (fire 0 (openNotebook (init notebook_stack)))
     \<noteq> fire 0 (openNotebook (init notebook_stack)) \<and>
   \<not> isAnimating (settle (call Advance (fire 0 (openNotebook (init notebook_stack))))) \<and>
   currentPage (fire 0 (openNotebook (init notebook_stack))) = 1 \<and>
   currentPage (settle (call Advance (fire 0 (openNotebook (init notebook_stack))))) = 2"
proof -
  let ?s = "fire 0 (openNotebook (init notebook_stack))"
  have o: "openNotebook (init notebook_stack) \<in> reach notebook_stack"
    using reach.input [OF reach.start, of Open notebook_stack] by simp
  have "0 < length (timers (openNotebook (init notebook_stack)))"
    by (simp add: openNotebook_def init_def updateDisplay_def setTimeout_def
        initializePageStates_def)
  with o have r: "?s \<in> reach notebook_stack" by (rule reach.timer)
  have z: "querySelector notebook_stack ''0'' = None"
    by (simp add: notebook_stack_def page_def)
  have s: "?s = \<lparr>currentPage = 1, totalPages = 4, isOpened = True, isAnimating = False,
        notebook_opened = True, elems = notebook_stack, currentPageSpan = ''Page 1'',
        totalPagesSpan = ''4'', prevBtn_disabled = False, nextBtn_disabled = False,
        timers = []\<rparr>"
    by (simp add: openNotebook_def init_def updateDisplay_def setTimeout_def
        initializePageStates_def fire_def notebook_stack_def page_def show_int_small)
  have n: "settle (call Advance ?s) = \<lparr>currentPage = 2, totalPages = 4, isOpened = True,
        isAnimating = False, notebook_opened = True,
        elems = [(page ''1'')\<lparr>turned := True\<rparr>, page ''2'', page ''3'', page ''4''],
        currentPageSpan = ''Page 2'',
        totalPagesSpan = ''4'', prevBtn_disabled = False, nextBtn_disabled = False,
        timers = []\<rparr>"
    unfolding s
    by (simp add: nextPage_def settle_step settle_idle Let_def updateDisplay_def setTimeout_def
        fire_def notebook_stack_def page_def show_int_small upd_elem_def)
  have a: "call Advance ?s \<noteq> ?s"
    unfolding s
    by (simp add: nextPage_def Let_def setTimeout_def
        notebook_stack_def page_def show_int_small upd_elem_def)
  from currentPage_bounded_stepwise [OF r, of Advance] z a n s r show ?thesis
    by simp
qed

subsection \<open>The page indicator\<close>

text \<open>
  Claim C6. \<open>updateDisplay\<close> writes the indicator and nothing else, and the text is a
  function of \<open>currentPage\<close>: \<^verbatim>\<open>Cover\<close> at 0, \<^verbatim>\<open>Page k\<close> for \<open>k = currentPage\<close> in
  1..N, \<^verbatim>\<open>End\<close> above N. The button variant shows the same text and besides sets the
  disabled flags of its two buttons; no controller field changes in either variant.
\<close>

theorem updateDisplay_projection:
  "0 \<le> totalPages s \<Longrightarrow>
   (currentPage s = 0 \<longrightarrow> currentPageSpan (updateDisplay s) = ''Cover'') \<and>
   (1 \<le> currentPage s \<and> currentPage s \<le> totalPages s \<longrightarrow>
      currentPageSpan (updateDisplay s) = ''Page '' @ show_int (currentPage s)) \<and>
   (currentPage s > totalPages s \<longrightarrow> currentPageSpan (updateDisplay s) = ''End'') \<and>
   updateDisplay s = s\<lparr>currentPageSpan := currentPageSpan (updateDisplay s)\<rparr> \<and>
   currentPageSpan (updateDisplay_B s) = currentPageSpan (updateDisplay s) \<and>
   updateDisplay_B s = s\<lparr>currentPageSpan := currentPageSpan (updateDisplay s),
                          prevBtn_disabled := (currentPage s \<le> 1),
                          nextBtn_disabled := (currentPage s \<ge> totalPages s)\<rparr>"
  by (simp add: updateDisplay_def updateDisplay_B_def Let_def)

theorem updateDisplay_projection_witness:
  "0 \<le> totalPages ((init notebook_stack)\<lparr>currentPage := 3\<rparr>) \<and>
   totalPages ((init notebook_stack)\<lparr>currentPage := 3\<rparr>) = 4 \<and>
   currentPageSpan (updateDisplay ((init notebook_stack)\<lparr>currentPage := 3\<rparr>)) = ''Page 3'' \<and>
   currentPageSpan (updateDisplay ((init notebook_stack)\<lparr>currentPage := 5\<rparr>)) = ''End'' \<and>
   currentPageSpan (updateDisplay (init notebook_stack)) = ''Cover''"
  using updateDisplay_projection [of "(init notebook_stack)\<lparr>currentPage := 3\<rparr>"]
        updateDisplay_projection [of "(init notebook_stack)\<lparr>currentPage := 5\<rparr>"]
        updateDisplay_projection [of "init notebook_stack"]
  by (simp add: init_def updateDisplay_def show_int_small)

subsection \<open>Opening twice\<close>

text \<open>
  Claim C7. A call of \<open>openNotebook\<close> while the lock is held or the notebook is already
  opened returns the state unchanged; in particular a second call right after the first,
  before the opening timer has run, changes nothing.
\<close>

theorem openNotebook_idempotent:
  "(isAnimating s \<or> isOpened s \<longrightarrow> openNotebook s = s) \<and>
   openNotebook (openNotebook s) = openNotebook s"
  by (simp add: openNotebook_def setTimeout_def initializePageStates_def)


theorem openNotebook_idempotent_witness:
  "isAnimating (openNotebook (init notebook_stack)) \<and>
   openNotebook (init notebook_stack) \<noteq> init notebook_stack \<and>
   openNotebook (openNotebook (init notebook_stack)) = openNotebook (init notebook_stack)"
  using openNotebook_idempotent [of "openNotebook (init notebook_stack)"]
  by (simp add: openNotebook_def init_def updateDisplay_def setTimeout_def
      initializePageStates_def)

subsection \<open>Completing a page turn\<close>

lemma unhidden_update:
  "\<forall>e \<in> set xs. \<not> hidden e \<Longrightarrow> \<not> hidden y \<Longrightarrow> \<forall>e \<in> set (xs[i := y]). \<not> hidden e"
  using set_update_subset_insert [of xs i y] by auto

lemma unhidden_modify:
  assumes "\<forall>e \<in> set xs. \<not> hidden e" and "hidden y = hidden (xs ! i)"
  shows "\<forall>e \<in> set (xs[i := y]). \<not> hidden e"
proof (cases "i < length xs")
  case True
  with assms have "\<not> hidden y" by simp
  with assms(1) show ?thesis by (rule unhidden_update)
next
  case False
  with assms(1) show ?thesis by (simp add: list_update_beyond)
qed

lemma unhidden_call:
  assumes H: "\<forall>e \<in> set (elems s). \<not> hidden e"
  shows "\<forall>e \<in> set (elems (call f s)). \<not> hidden e"
proof (cases f)
  case Open
  with H show ?thesis
    by (cases "isAnimating s \<or> isOpened s") (auto simp: openNotebook_busy openNotebook_start)
next
  case Advance
  show ?thesis
  proof (cases "isAnimating s \<or> totalPages s \<le> currentPage s")
    case True
    with H Advance show ?thesis by (simp add: nextPage_guard)
  next
    case False
    then have G: "\<not> isAnimating s" "currentPage s < totalPages s" by auto
    show ?thesis
    proof (cases "querySelector (elems s) (show_int (currentPage s))")
      case None
      with H G Advance show ?thesis by (simp add: nextPage_missing)
    next
      case (Some i)
      with G Advance have "elems (call f s) = (elems s)[i := (elems s ! i)\<lparr>turning := True\<rparr>]"
        by (simp add: nextPage_start)
      moreover from H
      have "\<forall>e \<in> set ((elems s)[i := (elems s ! i)\<lparr>turning := True\<rparr>]). \<not> hidden e"
        by (rule unhidden_modify) simp
      ultimately show ?thesis by simp
    qed
  qed
next
  case Retreat
  show ?thesis
  proof (cases "isAnimating s \<or> currentPage s \<le> 1")
    case True
    with H Retreat show ?thesis by (simp add: previousPage_guard)
  next
    case False
    then have G: "\<not> isAnimating s" "1 < currentPage s" by auto
    show ?thesis
    proof (cases "querySelector (elems s) (show_int (currentPage s - 1))")
      case None
      with H G Retreat show ?thesis by (simp add: previousPage_missing)
    next
      case (Some i)
      define y where "y = (if turned (elems s ! i)
          then (elems s ! i)\<lparr>hidden := False, transform := ''rotateY(-180deg)''\<rparr>
          else (elems s ! i)\<lparr>hidden := False\<rparr>)"
      then have "\<not> hidden y" by simp
      moreover from Some G Retreat have "elems (call f s) = (elems s)[i := y]"
        by (cases "turned (elems s ! i)")
           (simp_all add: previousPage_start previousPage_flat y_def)
      ultimately have "\<not> hidden y" "elems (call f s) = (elems s)[i := y]" by simp_all
      with unhidden_update [OF H, of y i] show ?thesis by simp
    qed
  qed
qed

lemma unhidden_fire:
  assumes I: "inv stack s" and H: "\<forall>e \<in> set (elems s). \<not> hidden e"
    and K: "k < length (timers s)"
  shows "\<forall>e \<in> set (elems (fire k s)). \<not> hidden e"
proof -
  from I K obtain d cb where T: "timers s = [(d, cb)]" and k0: "k = 0"
    by (cases "timers s") (auto simp: inv_def)
  from I T have A: "timer_ok s cb" "totalPages s = 4" by (auto simp: inv_def)
  from T k0 have F: "fire k s = run_callback cb (s\<lparr>timers := []\<rparr>)"
    by (simp add: fire_def)
  show ?thesis
  proof (cases cb)
    case OpenDone
    with F H show ?thesis by simp
  next
    case (NextDone i)
    with A F have "elems (fire k s) = (elems s)[i := (elems s ! i)\<lparr>turning := False, turned := True\<rparr>]"
      by (simp add: timer_ok_def upd_elem_def Let_def)
    moreover from H
    have "\<forall>e \<in> set ((elems s)[i := (elems s ! i)\<lparr>turning := False, turned := True\<rparr>]).
            \<not> hidden e"
      by (rule unhidden_modify) simp
    ultimately show ?thesis by simp
  next
    case (PrevStart i)
    with F have "elems (fire k s) = (elems s)[i := (elems s ! i)\<lparr>turning := True, transform := []\<rparr>]"
      by (simp add: upd_elem_def setTimeout_def)
    moreover from H
    have "\<forall>e \<in> set ((elems s)[i := (elems s ! i)\<lparr>turning := True, transform := []\<rparr>]).
            \<not> hidden e"
      by (rule unhidden_modify) simp
    ultimately show ?thesis by simp
  next
    case (PrevDone i)
    with F have "elems (fire k s) = (elems s)[i := (elems s ! i)\<lparr>turning := False, turned := False\<rparr>]"
      by (simp add: upd_elem_def)
    moreover from H
    have "\<forall>e \<in> set ((elems s)[i := (elems s ! i)\<lparr>turning := False, turned := False\<rparr>]).
            \<not> hidden e"
      by (rule unhidden_modify) simp
    ultimately show ?thesis by simp
  qed
qed

lemma reach_unhidden:
  "s \<in> reach stack \<Longrightarrow> \<forall>e \<in> set stack. \<not> hidden e \<Longrightarrow> \<forall>e \<in> set (elems s). \<not> hidden e"
proof (induction rule: reach.induct)
  case start
  then show ?case by (simp add: init_def)
next
  case (input s f)
  then show ?case by (simp add: unhidden_call)
next
  case (timer s k)
  then show ?case using unhidden_fire [OF reach_inv] by blast
qed

lemma reach_idle: "s \<in> reach stack \<Longrightarrow> \<not> isAnimating s \<Longrightarrow> timers s = []"
  using reach_inv [of s stack] by (auto simp: inv_def)




subsection \<open>Going back a page\<close>

text \<open>
  Claim C5. \<open>previousPage\<close> does nothing while the lock is held or at \<open>currentPage \<le> 1\<close>.
  Otherwise, when the element of the page returned to exists, \<open>currentPage\<close> drops by one
  at once; if that page was turned, the lock is held through both timers and when the
  second has run the page is back in its initial presentation (not turning, not turned,
  not hidden, no transform) and the lock is released; if it was not turned, the lock is
  released within the call and no timer is scheduled.
\<close>

theorem previousPage_restores:
  "(isAnimating s \<or> currentPage s \<le> 1 \<longrightarrow> previousPage s = s) \<and>
   (\<not> isAnimating s \<and> 1 < currentPage s \<and> timers s = [] \<and>
    querySelector (elems s) (show_int (currentPage s - 1)) = Some i \<longrightarrow>
      currentPage (previousPage s) = currentPage s - 1 \<and>
      (turned (elems s ! i) \<longrightarrow>
         isAnimating (previousPage s) \<and>
         isAnimating (fire 0 (previousPage s)) \<and>
         \<not> isAnimating (fire 0 (fire 0 (previousPage s))) \<and>
         timers (fire 0 (fire 0 (previousPage s))) = [] \<and>
         currentPage (fire 0 (fire 0 (previousPage s))) = currentPage s - 1 \<and>
         \<not> turned (elems (fire 0 (fire 0 (previousPage s))) ! i) \<and>
         \<not> turning (elems (fire 0 (fire 0 (previousPage s))) ! i) \<and>
         \<not> hidden (elems (fire 0 (fire 0 (previousPage s))) ! i) \<and>
         transform (elems (fire 0 (fire 0 (previousPage s))) ! i) = []) \<and>
      (\<not> turned (elems s ! i) \<longrightarrow>
         \<not> isAnimating (previousPage s) \<and> timers (previousPage s) = []))"
proof -
  have "i < length (elems s)"
    if "querySelector (elems s) (show_int (currentPage s - 1)) = Some i"
    using that by (rule querySelector_less)
  then show ?thesis
    by (cases "turned (elems s ! i)")
       (auto simp: previousPage_guard previousPage_start previousPage_flat fire_def upd_elem_def
         setTimeout_def)
qed

theorem previousPage_restores_witness:
  "\<not> isAnimating page2_state \<and> 1 < currentPage page2_state \<and> timers page2_state = [] \<and>
   querySelector (elems page2_state) (show_int (currentPage page2_state - 1)) = Some 0 \<and>
   turned (elems page2_state ! 0) \<and>
   currentPage page2_state = 2 \<and>
   currentPage (fire 0 (fire 0 (previousPage page2_state))) = 1 \<and>
   \<not> isAnimating (fire 0 (fire 0 (previousPage page2_state))) \<and>
   elems (fire 0 (fire 0 (previousPage page2_state))) = notebook_stack"
proof -
  have a: "\<not> isAnimating page2_state \<and> 1 < currentPage page2_state \<and> timers page2_state = [] \<and>
   querySelector (elems page2_state) (show_int (currentPage page2_state - 1)) = Some 0 \<and>
   turned (elems page2_state ! 0) \<and> currentPage page2_state = 2"
    by (simp add: page2_state_eq page_def show_int_small)
  have b: "elems (fire 0 (fire 0 (previousPage page2_state))) = notebook_stack"
    unfolding page2_state_eq
    by (simp add: previousPage_def Let_def page_def show_int_small upd_elem_def setTimeout_def
        fire_def notebook_stack_def)
  from previousPage_restores [of page2_state 0] a
  have "currentPage (fire 0 (fire 0 (previousPage page2_state))) = currentPage page2_state - 1 \<and>
      \<not> isAnimating (fire 0 (fire 0 (previousPage page2_state)))"
    by blast
  with a b show ?thesis by auto
qed

subsection \<open>The animation lock\<close>

text \<open>
  While \<open>isAnimating\<close> holds, each of the three operations, and a swipe, returns the
  state unchanged, so \<open>currentPage\<close> in particular. In runs made of the three operations
  and timers alone, at most one timer is pending, and only while the lock is held.
\<close>

lemma lock_drops_requests:
  "(isAnimating s \<longrightarrow> call f s = s \<and> fst (touchend sx sy ex ey s) = s) \<and>
   (r \<in> reach stack \<longrightarrow> length (timers r) \<le> 1 \<and> (timers r \<noteq> [] \<longrightarrow> isAnimating r))"
proof -
  have "call f s = s" if "isAnimating s"
    using that by (cases f) (simp_all add: openNotebook_busy nextPage_guard previousPage_guard)
  moreover have "fst (touchend sx sy ex ey s) = s" if "isAnimating s"
    using that by (simp add: touchend_def touchend_decision_def Let_def)
  moreover have "length (timers r) \<le> 1 \<and> (timers r \<noteq> [] \<longrightarrow> isAnimating r)"
    if "r \<in> reach stack"
    using reach_inv [OF that] by (simp add: inv_def)
  ultimately show ?thesis by blast
qed

lemma lock_drops_requests_example:
  "isAnimating (openNotebook (init notebook_stack)) \<and>
   openNotebook (init notebook_stack) \<in> reach notebook_stack \<and>
   timers (openNotebook (init notebook_stack)) \<noteq> [] \<and>
   call Advance (openNotebook (init notebook_stack)) = openNotebook (init notebook_stack) \<and>
   length (timers (openNotebook (init notebook_stack))) \<le> 1"
proof -
  have r: "openNotebook (init notebook_stack) \<in> reach notebook_stack"
    using reach.input [OF reach.start, of Open notebook_stack] by simp
  have a: "isAnimating (openNotebook (init notebook_stack)) \<and>
           timers (openNotebook (init notebook_stack)) \<noteq> []"
    by (simp add: openNotebook_def init_def updateDisplay_def setTimeout_def
        initializePageStates_def)
  from lock_drops_requests [of "openNotebook (init notebook_stack)" Advance
        None None 0 0 "openNotebook (init notebook_stack)" notebook_stack] r a
  show ?thesis by blast
qed

text \<open>
  \<open>handleResize\<close> always leaves the lock released and the pending timers in place.
\<close>

lemma handleResize_keeps_timers:
  "timers (handleResize s) = timers s \<and> \<not> isAnimating (handleResize s)"
  by (simp add: handleResize_def)

text \<open>
  Claim C8. At most one page turn should be in flight at any time, every request that
  arrives meanwhile being dropped. The resize listener (\<^verbatim>\<open>Reset any ongoing animations
  on resize\<close>) releases the lock and cancels no timer. At page 1: \<open>nextPage\<close> starts a
  turn; a resize leaves the controller idle with that turn's timer pending; a second
  \<open>nextPage\<close> is accepted and two completions of the same page are pending under the
  lock; the first to run releases the lock while the second is still pending; after
  both, \<open>currentPage\<close> is 3 and page 2 has never been turned.
\<close>

theorem resize_leaves_turn_in_flight:
  "isAnimating (nextPage page1_state) \<and>
   timers (nextPage page1_state) = [(600, NextDone 0)] \<and>
   \<not> isAnimating (handleResize (nextPage page1_state)) \<and>
   timers (handleResize (nextPage page1_state)) = [(600, NextDone 0)] \<and>
   isAnimating (nextPage (handleResize (nextPage page1_state))) \<and>
   timers (nextPage (handleResize (nextPage page1_state))) =
     [(600, NextDone 0), (600, NextDone 0)] \<and>
   \<not> isAnimating (fire 0 (nextPage (handleResize (nextPage page1_state)))) \<and>
   timers (fire 0 (nextPage (handleResize (nextPage page1_state)))) = [(600, NextDone 0)] \<and>
   currentPage (fire 0 (nextPage (handleResize (nextPage page1_state)))) = 2 \<and>
   currentPage (fire 0 (fire 0 (nextPage (handleResize (nextPage page1_state))))) = 3 \<and>
   \<not> turned (elems (fire 0 (fire 0 (nextPage (handleResize (nextPage page1_state))))) ! 1)"
  unfolding page1_state_eq
  by (simp add: nextPage_def handleResize_def Let_def updateDisplay_def setTimeout_def
      fire_def notebook_stack_def page_def show_int_small upd_elem_def)


subsection \<open>The two variants\<close>

lemma core_updateDisplay:
  "core s = core t \<Longrightarrow> core (updateDisplay s) = core (updateDisplay_B t)"
  by (simp add: core_def updateDisplay_def updateDisplay_B_def Let_def)

lemma core_open: "core s = core t \<Longrightarrow> core (openNotebook s) = core (openNotebook_B t)"
  by (simp add: core_def openNotebook_def openNotebook_B_def setTimeout_def
      initializePageStates_def)

lemma core_next: "core s = core t \<Longrightarrow> core (nextPage s) = core (nextPage_B t)"
  by (simp add: core_def nextPage_def nextPage_B_def setTimeout_def upd_elem_def Let_def
      split: option.splits)

lemma core_prev: "core s = core t \<Longrightarrow> core (previousPage s) = core (previousPage_B t)"
proof -
  assume c: "core s = core t"
  from c show ?thesis
    unfolding previousPage_def previousPage_B_def Let_def
    by (auto simp: setTimeout_def upd_elem_def core_def updateDisplay_def updateDisplay_B_def
        Let_def split: option.splits)
qed

lemma core_run_callback:
  "core s = core t \<Longrightarrow> core (run_callback cb s) = core (run_callback_B cb t)"
  by (cases cb)
     (simp_all add: core_def updateDisplay_def updateDisplay_B_def Let_def upd_elem_def
       setTimeout_def)

lemma core_fire: "core s = core t \<Longrightarrow> core (fire k s) = core (fire_B k t)"
proof -
  assume c: "core s = core t"
  then have m: "map snd (timers s) = map snd (timers t)" by (simp add: core_def)
  then have l: "length (timers s) = length (timers t)" by (rule map_eq_imp_length_eq)
  show ?thesis
  proof (cases "k < length (timers s)")
    case False
    with l c show ?thesis by (simp add: fire_def fire_B_def)
  next
    case True
    with l m have cb: "snd (timers s ! k) = snd (timers t ! k)"
      by (metis nth_map)
    from m have "map snd (take k (timers s) @ drop (Suc k) (timers s)) =
                 map snd (take k (timers t) @ drop (Suc k) (timers t))"
      by (simp add: take_map [symmetric] drop_map [symmetric])
    with c have "core (s\<lparr>timers := take k (timers s) @ drop (Suc k) (timers s)\<rparr>) =
                 core (t\<lparr>timers := take k (timers t) @ drop (Suc k) (timers t)\<rparr>)"
      by (simp add: core_def)
    then show ?thesis
      using True l cb by (simp add: fire_def fire_B_def core_run_callback)
  qed
qed

text \<open>
  Claim C10. From states that agree on \<open>core\<close>, each of the three operations and each
  timer leads both variants to states that agree on \<open>core\<close> again, and the constructors
  agree on it: same \<open>currentPage\<close>, \<open>isOpened\<close>, \<open>isAnimating\<close>, same classes and
  transform of every page, same pending closures. The delays differ.
\<close>

theorem variants_agree:
  "core s = core t \<Longrightarrow>
   core (call f s) = core (call_B f t) \<and> core (fire k s) = core (fire_B k t) \<and>
   core (init stack) = core (init_B stack)"
  by (cases f)
     (simp_all add: core_open core_next core_prev core_fire,
      simp_all add: init_def init_B_def core_def updateDisplay_def updateDisplay_B_def)

theorem variants_agree_witness:
  "core (init notebook_stack) = core (init_B notebook_stack) \<and>
   core (call Open (init notebook_stack)) = core (call_B Open (init_B notebook_stack)) \<and>
   timers (call Open (init notebook_stack)) = [(500, OpenDone)] \<and>
   timers (call_B Open (init_B notebook_stack)) = [(1000, OpenDone)]"
proof -
  have i: "core (init notebook_stack) = core (init_B notebook_stack)"
    by (simp add: init_def init_B_def core_def updateDisplay_def updateDisplay_B_def)
  from variants_agree [OF i, of Open] i show ?thesis
    by (simp add: init_def init_B_def updateDisplay_def updateDisplay_B_def openNotebook_def
        openNotebook_B_def setTimeout_def initializePageStates_def)
qed

subsection \<open>Swipes\<close>

lemma touchend_decision_threshold:
  "\<not> falsy sx \<Longrightarrow> \<not> falsy sy \<Longrightarrow> isOpened s \<Longrightarrow> \<not> isAnimating s \<Longrightarrow>
   touchend_decision sx sy ex ey s =
     (if \<bar>the sx - ex\<bar> > \<bar>the sy - ey\<bar> \<and> \<bar>the sx - ex\<bar> > 50
      then (if the sx - ex > 0 then CallNext else CallPrevious)
      else NoCall)"
  by (simp add: touchend_decision_def Let_def)

text \<open>
  Claim C9. On an opened, idle notebook a swipe whose horizontal displacement exceeds
  both its vertical displacement and 50 should navigate. The listener tests the start
  coordinates with \<^verbatim>\<open>!startX || !startY\<close>, so a touch that started at
  \<open>clientX = 0\<close> is taken for no touch at all: the swipe from (0, 100) to (60, 110) calls
  nothing and leaves the closure variables set, while the same swipe one pixel to the
  right calls \<open>previousPage\<close>. The last two conjuncts are a left swipe of 60 and one of
  40 from (100, 100).
\<close>

theorem touchend_zero_start_dropped:
  "isOpened page2_state \<and> \<not> isAnimating page2_state \<and>
   touchend_decision (Some 0) (Some 100) 60 110 page2_state = NoCall \<and>
   touchend (Some 0) (Some 100) 60 110 page2_state = (page2_state, Some 0, Some 100) \<and>
   touchend_decision (Some 1) (Some 100) 61 110 page2_state = CallPrevious \<and>
   touchend (Some 1) (Some 100) 61 110 page2_state = (previousPage page2_state, None, None) \<and>
   previousPage page2_state \<noteq> page2_state \<and>
   touchend_decision (Some 100) (Some 100) 40 110 page2_state = CallNext \<and>
   touchend_decision (Some 100) (Some 100) 60 110 page2_state = NoCall"
  unfolding page2_state_eq
  by (simp add: touchend_def touchend_decision_def falsy_def Let_def previousPage_def
      show_int_small page_def upd_elem_def setTimeout_def)

subsection \<open>Requests that are not dropped cleanly\<close>

text \<open>
  Claim C3. \<open>nextPage\<close> should do nothing on a notebook that is not opened. Its guard does
  not look at \<open>isOpened\<close>. In the button variant the next button is enabled on the cover
  and its listener calls \<open>nextPage\<close> directly: the lock is taken, no element is tagged
  \<^verbatim>\<open>0\<close>, no timer is scheduled, and from then on \<open>openNotebook\<close> is refused. The
  click/keyboard variant's method behaves the same when called on the cover.
\<close>

theorem nextBtn_before_open_locks:
  "\<not> isOpened (init_B notebook_stack) \<and> \<not> isAnimating (init_B notebook_stack) \<and>
   \<not> nextBtn_disabled (init_B notebook_stack) \<and>
   nextBtn_click_B (init_B notebook_stack) = (init_B notebook_stack)\<lparr>isAnimating := True\<rparr> \<and>
   timers (nextBtn_click_B (init_B notebook_stack)) = [] \<and>
   openNotebook_B (nextBtn_click_B (init_B notebook_stack)) =
     nextBtn_click_B (init_B notebook_stack) \<and>
   nextPage (init notebook_stack) = (init notebook_stack)\<lparr>isAnimating := True\<rparr>"
  by (simp add: nextBtn_click_B_def nextPage_B_def nextPage_def init_B_def init_def
      updateDisplay_B_def updateDisplay_def openNotebook_B_def Let_def show_int_small
      notebook_stack_def page_def)

text \<open>
  Claim C2. A request whose page element is missing should leave the state as it was.
  Both \<open>nextPage\<close> and \<open>previousPage\<close> take the lock (and \<open>previousPage\<close> decrements
  \<open>currentPage\<close>) before they look the element up, and release it only inside the branch
  for a found element: with the element missing the state has changed, the lock stays
  held and nothing is scheduled that would release it. Both variants do the same.
\<close>

theorem missing_element_keeps_lock:
  "\<not> isAnimating s \<Longrightarrow>
   (currentPage s < totalPages s \<longrightarrow>
    querySelector (elems s) (show_int (currentPage s)) = None \<longrightarrow>
      nextPage s = s\<lparr>isAnimating := True\<rparr> \<and> nextPage s \<noteq> s \<and>
      timers (nextPage s) = timers s \<and> nextPage_B s = nextPage s) \<and>
   (1 < currentPage s \<longrightarrow>
    querySelector (elems s) (show_int (currentPage s - 1)) = None \<longrightarrow>
      previousPage s = s\<lparr>isAnimating := True, currentPage := currentPage s - 1\<rparr> \<and>
      previousPage s \<noteq> s \<and> timers (previousPage s) = timers s \<and>
      previousPage_B s = previousPage s)"
proof -
  assume idle: "\<not> isAnimating s"
  then have "s\<lparr>isAnimating := True\<rparr> \<noteq> s"
    by (metis controller.select_convs(4) controller.surjective controller.update_convs(4))
  moreover from idle have "s\<lparr>isAnimating := True, currentPage := c\<rparr> \<noteq> s" for c
    by (metis controller.select_convs(4) controller.surjective controller.update_convs(1)
        controller.update_convs(4))
  ultimately show ?thesis using idle
    by (simp add: nextPage_missing previousPage_missing nextPage_B_def previousPage_B_def)
qed

theorem missing_element_keeps_lock_witness:
  "\<not> isAnimating (init notebook_stack) \<and>
   currentPage (init notebook_stack) < totalPages (init notebook_stack) \<and>
   querySelector (elems (init notebook_stack)) (show_int (currentPage (init notebook_stack)))
     = None \<and>
   isAnimating (nextPage (init notebook_stack)) \<and>
   timers (nextPage (init notebook_stack)) = [] \<and>
   nextPage (init notebook_stack) \<noteq> init notebook_stack"
proof -
  have a: "\<not> isAnimating (init notebook_stack) \<and>
   currentPage (init notebook_stack) < totalPages (init notebook_stack) \<and>
   querySelector (elems (init notebook_stack)) (show_int (currentPage (init notebook_stack)))
     = None \<and> timers (init notebook_stack) = []"
    by (simp add: init_def updateDisplay_def show_int_small notebook_stack_def page_def)
  with missing_element_keeps_lock [of "init notebook_stack"]
  have e: "nextPage (init notebook_stack) = (init notebook_stack)\<lparr>isAnimating := True\<rparr>"
    and n: "nextPage (init notebook_stack) \<noteq> init notebook_stack"
    and t: "timers (nextPage (init notebook_stack)) = timers (init notebook_stack)"
    by auto
  from e have "isAnimating (nextPage (init notebook_stack))" by simp
  with a n t show ?thesis by simp
qed

end
